theory Spec2Isabelle
  imports Main "HOL-Library.Word"
begin

unbundle bit_operations_syntax

section \<open>Process ids, exceptions, outcomes\<close>

text \<open>
  The module \<^verbatim>\<open>clearml/utilities/process/mp.py\<close> is modelled by explicit state passing.
  A process id is a natural number; Python's \<^verbatim>\<open>None\<close> is \<open>None\<close> of an option type.
  A call either returns a value and leaves a state, or raises and leaves a state
  (a Python exception does not undo the mutations done before it).
\<close>

type_synonym pid = nat
type_synonym byte = "8 word"
type_synonym bytes = "byte list"

datatype exn =
    PickleError       \<comment> \<open>\<^verbatim>\<open>pickle.dumps\<close> / \<^verbatim>\<open>pickle.loads\<close> raised\<close>
  | DispatchError     \<comment> \<open>\<^verbatim>\<open>thread_pool.get().apply_async\<close> raised\<close>
  | WriteError        \<comment> \<open>the put on the interprocess \<^verbatim>\<open>SimpleQueue\<close> raised\<close>
  | StructError       \<comment> \<open>\<^verbatim>\<open>struct.error\<close>\<close>
  | AttributeError
  | PsutilError       \<comment> \<open>an exception derived from \<^verbatim>\<open>psutil.Error\<close>\<close>
  | OtherError        \<comment> \<open>any other exception derived from \<^verbatim>\<open>Exception\<close>\<close>

datatype ('r, 's) outcome = Return 'r 's | Raise exn 's

fun state_of :: "('r, 's) outcome \<Rightarrow> 's" where
  "state_of (Return r s) = s"
| "state_of (Raise e s) = s"

fun raises :: "('r, 's) outcome \<Rightarrow> bool" where
  "raises (Return r s) = False"
| "raises (Raise e s) = True"

section \<open>\<^verbatim>\<open>_ForkSafeThreadSyncObject\<close> and \<^verbatim>\<open>ForkQueue\<close>\<close>

text \<open>
  \<^verbatim>\<open>_sync\<close> is \<^verbatim>\<open>None\<close> or the object the functor built. None of the wrapped classes
  (\<^verbatim>\<open>threading.RLock\<close>, \<^verbatim>\<open>threading.Event\<close>, \<^verbatim>\<open>queue.Queue\<close>, a semaphore) defines
  \<^verbatim>\<open>__bool__\<close> or \<^verbatim>\<open>__len__\<close>, so \<^verbatim>\<open>not self._sync\<close> holds exactly when \<^verbatim>\<open>_sync\<close> is
  \<^verbatim>\<open>None\<close>. The functor builds a fresh object; \<open>sync_functor\<close> is the state of that
  fresh object. The class-level process lock around the rebuild swallows its own
  failures and does not change the object, so it does not appear in the state.
\<close>

record 'a fork_sync =
  sync :: "'a option"
  instance_pid :: "pid option"
  sync_functor :: "unit \<Rightarrow> 'a"

definition ForkSafeThreadSyncObject_init :: "(unit \<Rightarrow> 'a) \<Rightarrow> 'a fork_sync" where
  "ForkSafeThreadSyncObject_init f = \<lparr>sync = None, instance_pid = None, sync_functor = f\<rparr>"

definition create :: "pid \<Rightarrow> 'a fork_sync \<Rightarrow> 'a fork_sync" where
  "create cur ob =
     (if instance_pid ob \<noteq> Some cur \<or> sync ob = None then
        (if instance_pid ob \<noteq> Some cur \<or> sync ob = None
         then ob\<lparr>sync := Some (sync_functor ob ()), instance_pid := Some cur\<rparr>
         else ob)
      else ob)"

text \<open>
  \<^verbatim>\<open>ForkQueue\<close> wraps \<^verbatim>\<open>queue.Queue()\<close>, an unbounded FIFO: its state is the list of
  queued items, oldest first. \<^verbatim>\<open>queue.Queue\<close> has no method \<^verbatim>\<open>close\<close>, so the last line of
  \<^verbatim>\<open>ForkQueue.close\<close> raises \<^verbatim>\<open>AttributeError\<close> once the inner queue exists.
  A blocking \<^verbatim>\<open>get\<close> on an empty queue does not return: \<open>ForkQueue_get\<close> gives \<open>None\<close>
  for the item then.
\<close>

type_synonym 'x fork_queue = "'x list fork_sync"

definition ForkQueue_init :: "'x fork_queue" where
  "ForkQueue_init = ForkSafeThreadSyncObject_init (\<lambda>_. [])"

definition ForkQueue_put :: "pid \<Rightarrow> 'x \<Rightarrow> 'x fork_queue \<Rightarrow> 'x fork_queue" where
  "ForkQueue_put cur x fq =
     (let fq' = create cur fq
      in case sync fq' of
           None \<Rightarrow> fq'
         | Some xs \<Rightarrow> fq'\<lparr>sync := Some (xs @ [x])\<rparr>)"

definition ForkQueue_get :: "pid \<Rightarrow> 'x fork_queue \<Rightarrow> 'x option \<times> 'x fork_queue" where
  "ForkQueue_get cur fq =
     (let fq' = create cur fq
      in case sync fq' of
           Some (x # xs) \<Rightarrow> (Some x, fq'\<lparr>sync := Some xs\<rparr>)
         | _ \<Rightarrow> (None, fq'))"

definition ForkQueue_empty :: "pid \<Rightarrow> 'x fork_queue \<Rightarrow> (bool, 'x fork_queue) outcome" where
  "ForkQueue_empty cur fq =
     (if sync fq = None then Return True fq
      else let fq' = create cur fq
           in Return (case sync fq' of None \<Rightarrow> True | Some xs \<Rightarrow> xs = []) fq')"

definition ForkQueue_full :: "pid \<Rightarrow> 'x fork_queue \<Rightarrow> (bool, 'x fork_queue) outcome" where
  "ForkQueue_full cur fq =
     (if sync fq = None then Return False fq
      else let fq' = create cur fq
           in Return False fq')"

definition ForkQueue_close :: "pid \<Rightarrow> 'x fork_queue \<Rightarrow> (unit, 'x fork_queue) outcome" where
  "ForkQueue_close cur fq =
     (if sync fq = None then Return () fq
      else let fq' = create cur fq
           in Raise AttributeError fq')"

section \<open>\<^verbatim>\<open>SingletonThreadPool\<close>, \<^verbatim>\<open>ThreadCalls\<close> and \<^verbatim>\<open>SafeQueue\<close>\<close>

text \<open>
  What the module takes from outside is an environment: the id of the running process,
  \<^verbatim>\<open>BackgroundMonitor._at_exit\<close>, \<^verbatim>\<open>pickle.dumps\<close> and \<^verbatim>\<open>pickle.loads\<close> (either may raise),
  whether obtaining the thread pool and queueing a call on it succeeds, and whether the
  put of a payload on the interprocess \<^verbatim>\<open>SimpleQueue\<close> succeeds.
\<close>

record 'a env =
  getpid :: pid
  at_exit :: bool
  dumps :: "'a \<Rightarrow> exn + bytes"
  loads :: "bytes \<Rightarrow> exn + 'a"
  pool_ok :: bool
  q_put_ok :: "bytes \<Rightarrow> bool"

text \<open>
  A request queued on the pool by \<^verbatim>\<open>SafeQueue.put\<close> is always the call
  \<^verbatim>\<open>self._q_put(obj, False)\<close>; it is kept as its argument pair. The state holds the fields
  of one \<^verbatim>\<open>SafeQueue\<close> and the two class attributes of \<^verbatim>\<open>SingletonThreadPool\<close>
  (\<open>thread_pool\<close> is the request queue of the current \<^verbatim>\<open>ThreadCalls\<close> object).
  \<open>q\<close> lists what was written to the \<^verbatim>\<open>SimpleQueue\<close> and not yet read, oldest first;
  \<open>reader_thread\<close> says that a reader thread exists and is alive.
\<close>

type_synonym request = "bytes \<times> bool"

record safe_queue =
  q :: "bytes list"
  internal_q :: "bytes fork_queue option"
  q_size :: "pid list"
  reader_thread :: bool
  reader_thread_started :: bool
  thread_pool :: "request fork_queue option"
  thread_pool_pid :: "pid option"

definition SafeQueue_init :: safe_queue where
  "SafeQueue_init =
     \<lparr>q = [], internal_q = None, q_size = [], reader_thread = False,
      reader_thread_started = False, thread_pool = None, thread_pool_pid = None\<rparr>"

definition SingletonThreadPool_get :: "pid \<Rightarrow> safe_queue \<Rightarrow> safe_queue" where
  "SingletonThreadPool_get cur s =
     (if Some cur \<noteq> thread_pool_pid s
      then s\<lparr>thread_pool := Some ForkQueue_init, thread_pool_pid := Some cur\<rparr>
      else s)"

definition apply_async :: "pid \<Rightarrow> request \<Rightarrow> safe_queue \<Rightarrow> (bool, safe_queue) outcome" where
  "apply_async cur req s =
     (case thread_pool s of
        None \<Rightarrow> Raise AttributeError s
      | Some tq \<Rightarrow> Return True (s\<lparr>thread_pool := Some (ForkQueue_put cur req tq)\<rparr>))"

text \<open>
  The loop \<^verbatim>\<open>while p != pid and self._q_size: p = self._q_size.pop()\<close>, entered with
  \<^verbatim>\<open>p = None\<close>; \<^verbatim>\<open>list.pop()\<close> takes the last element.
\<close>

function pop_loop :: "pid \<Rightarrow> pid option \<Rightarrow> pid list \<Rightarrow> pid list" where
  "pop_loop pid p qs =
     (if p \<noteq> Some pid \<and> qs \<noteq> [] then pop_loop pid (Some (last qs)) (butlast qs) else qs)"
  by pat_completeness auto
termination
  by (relation "measure (\<lambda>(pid, p, qs). length qs)") auto

declare pop_loop.simps [simp del]

definition get_q_size_len :: "'a env \<Rightarrow> pid option \<Rightarrow> safe_queue \<Rightarrow> nat" where
  "get_q_size_len env pid s =
     (let pid' = (case pid of
                    None \<Rightarrow> getpid env
                  | Some n \<Rightarrow> if n = 0 then getpid env else n)
      in length (filter (\<lambda>p. p = pid') (q_size s)))"

definition is_pending :: "'a env \<Rightarrow> safe_queue \<Rightarrow> bool" where
  "is_pending env s = (get_q_size_len env None s > 0)"

definition q_put :: "'a env \<Rightarrow> bytes \<Rightarrow> bool \<Rightarrow> safe_queue \<Rightarrow> (unit, safe_queue) outcome" where
  "q_put env obj allow_raise s =
     (if \<not> q_put_ok env obj then
        (let s' = s\<lparr>q_size := []\<rparr>
         in if allow_raise then Raise WriteError s' else Return () s')
      else
        (let s1 = s\<lparr>q := q s @ [obj]\<rparr>
         in Return () (s1\<lparr>q_size := pop_loop (getpid env) None (q_size s1)\<rparr>)))"

text \<open>The body of the \<^verbatim>\<open>try\<close> statement of \<^verbatim>\<open>SafeQueue.put\<close>.\<close>

definition put_try :: "'a env \<Rightarrow> 'a \<Rightarrow> safe_queue \<Rightarrow> (unit, safe_queue) outcome" where
  "put_try env obj s =
     (case dumps env obj of
        Inl e \<Rightarrow> Raise e s
      | Inr b \<Rightarrow>
          if at_exit env then q_put env b True s
          else if \<not> pool_ok env then Raise DispatchError s
          else (case apply_async (getpid env) (b, False)
                       (SingletonThreadPool_get (getpid env) s) of
                  Return r s' \<Rightarrow> Return () s'
                | Raise e s' \<Rightarrow> Raise e s'))"

definition put :: "'a env \<Rightarrow> 'a \<Rightarrow> safe_queue \<Rightarrow> (unit, safe_queue) outcome" where
  "put env obj s =
     (let s1 = s\<lparr>q_size := q_size s @ [getpid env]\<rparr>
      in case put_try env obj s1 of
           Return r s2 \<Rightarrow> Return () s2
         | Raise e s2 \<Rightarrow> Return () (s2\<lparr>q_size := pop_loop (getpid env) None (q_size s2)\<rparr>))"

definition init_reader_thread :: "safe_queue \<Rightarrow> safe_queue" where
  "init_reader_thread s =
     (let s1 = (if internal_q s = None then s\<lparr>internal_q := Some ForkQueue_init\<rparr> else s)
      in if \<not> reader_thread s1
         then s1\<lparr>reader_thread := True, reader_thread_started := True\<rparr>
         else s1)"

text \<open>
  \<^verbatim>\<open>SafeQueue.get\<close> is \<^verbatim>\<open>_get_internal_queue\<close>. The call blocks while the internal queue is
  empty: the result \<open>Return None\<close> stands for a call that has not returned yet (the
  reader thread has been started), \<open>Return (Some v)\<close> for the call returning \<open>v\<close>.
\<close>

definition get_internal_queue :: "'a env \<Rightarrow> safe_queue \<Rightarrow> ('a option, safe_queue) outcome" where
  "get_internal_queue env s =
     (let s1 = init_reader_thread s
      in case internal_q s1 of
           None \<Rightarrow> Raise AttributeError s1
         | Some iq \<Rightarrow>
             (case ForkQueue_get (getpid env) iq of
                (None, iq') \<Rightarrow> Return None (s1\<lparr>internal_q := Some iq'\<rparr>)
              | (Some b, iq') \<Rightarrow>
                  (case loads env b of
                     Inl e \<Rightarrow> Raise e (s1\<lparr>internal_q := Some iq'\<rparr>)
                   | Inr v \<Rightarrow> Return (Some v) (s1\<lparr>internal_q := Some iq'\<rparr>))))"

definition SafeQueue_get :: "'a env \<Rightarrow> safe_queue \<Rightarrow> ('a option, safe_queue) outcome" where
  "SafeQueue_get env s = get_internal_queue env s"

text \<open>
  One turn of the loop of \<^verbatim>\<open>_reader_daemon\<close>: with nothing to read the thread stays blocked
  in \<^verbatim>\<open>self._q.get()\<close>; an item read (a \<^verbatim>\<open>bytes\<close> object, never \<^verbatim>\<open>None\<close>) goes to the internal
  queue. The put on the internal queue is outside the \<^verbatim>\<open>try\<close>, so without an internal
  queue the thread dies.
\<close>

definition reader_daemon :: "'a env \<Rightarrow> safe_queue \<Rightarrow> safe_queue" where
  "reader_daemon env s =
     (if \<not> reader_thread s then s
      else case q s of
             [] \<Rightarrow> s
           | b # bs \<Rightarrow>
               (case internal_q s of
                  None \<Rightarrow> s\<lparr>q := bs, reader_thread := False\<rparr>
                | Some iq \<Rightarrow> s\<lparr>q := bs, internal_q := Some (ForkQueue_put (getpid env) b iq)\<rparr>))"

text \<open>
  One turn of the loop of \<^verbatim>\<open>ThreadCalls._worker\<close>: with no request the \<^verbatim>\<open>get\<close> times out
  and the loop continues; a request (a non-empty tuple, so never falsy) is called and an
  exception of the call is discarded.
\<close>

definition worker :: "'a env \<Rightarrow> safe_queue \<Rightarrow> safe_queue" where
  "worker env s =
     (case thread_pool s of
        None \<Rightarrow> s
      | Some tq \<Rightarrow>
          (case ForkQueue_get (getpid env) tq of
             (None, tq') \<Rightarrow> s\<lparr>thread_pool := Some tq'\<rparr>
           | (Some (obj, allow_raise), tq') \<Rightarrow>
               state_of (q_put env obj allow_raise (s\<lparr>thread_pool := Some tq'\<rparr>))))"

text \<open>
  The threads of one process interleave: a schedule is a list of actions, each one call of
  \<^verbatim>\<open>put\<close>, one attempt of the pending \<^verbatim>\<open>get\<close> call to return, one turn of the pool's worker,
  one turn of the reader thread, or one call of \<^verbatim>\<open>BackgroundMonitor.set_at_exit_state\<close>.
  \<^verbatim>\<open>_at_exit\<close> is a class attribute that this last call overwrites: the state of a run holds
  its current value next to the queue and the values the \<^verbatim>\<open>get\<close> calls returned, and
  every call sees the environment with that value. A run starts from a fresh queue with
  the at-exit state the environment gives.
\<close>

datatype 'a action = Put 'a | Get | Worker | Reader | SetAtExit bool




fun puts_of :: "'a action list \<Rightarrow> 'a list" where
  "puts_of [] = []"
| "puts_of (Put x # acts) = x # puts_of acts"
| "puts_of (a # acts) = puts_of acts"

section \<open>The write primitive \<^verbatim>\<open>_pipe_override_send_bytes\<close>\<close>

text \<open>
  \<^verbatim>\<open>struct.pack("!i", n)\<close> packs a signed 32-bit integer into four bytes, most significant
  first, and raises \<^verbatim>\<open>struct.error\<close> when \<open>n\<close> is outside \<open>-2^31 \<dots> 2^31 - 1\<close>.
  A connection is modelled by the buffers handed to its \<^verbatim>\<open>_send\<close>, one per call.
\<close>

definition struct_pack_i :: "int \<Rightarrow> exn + bytes" where
  "struct_pack_i n =
     (if - (2 ^ 31) \<le> n \<and> n < 2 ^ 31
      then let w = (word_of_int n :: 32 word)
           in Inr [ucast (drop_bit 24 w), ucast (drop_bit 16 w), ucast (drop_bit 8 w), ucast w]
      else Inl StructError)"

text \<open>Reading four bytes back as an unsigned big-endian number.\<close>

definition be_value :: "bytes \<Rightarrow> nat" where
  "be_value bs = foldl (\<lambda>acc b. acc * 256 + unat b) 0 bs"

record connection =
  sent :: "bytes list"

definition send :: "bytes \<Rightarrow> connection \<Rightarrow> connection" where
  "send buf conn = conn\<lparr>sent := sent conn @ [buf]\<rparr>"

definition pipe_override_send_bytes :: "connection \<Rightarrow> bytes \<Rightarrow> (unit, connection) outcome" where
  "pipe_override_send_bytes conn buf =
     (let n = int (length buf)
      in case struct_pack_i n of
           Inl e \<Rightarrow> Raise e conn
         | Inr header \<Rightarrow> Return () (send (header @ buf) conn))"

section \<open>\<^verbatim>\<open>psutil\<close>\<close>

text \<open>
  Of a \<^verbatim>\<open>psutil.Process\<close> object the module reads \<^verbatim>\<open>pid\<close>, \<^verbatim>\<open>is_running()\<close> and \<^verbatim>\<open>status()\<close>
  (which may raise) and \<^verbatim>\<open>children(recursive=True)\<close>. The library is a parameter:
  \<open>Process\<close> is the constructor \<^verbatim>\<open>psutil.Process(pid)\<close>, \<open>children\<close> the descendants
  of the process with the given pid; both may raise.
\<close>

datatype status = STATUS_RUNNING | STATUS_SLEEPING | STATUS_STOPPED | STATUS_ZOMBIE | STATUS_DEAD

record process =
  proc_pid :: pid
  is_running :: bool
  proc_status :: "exn + status"

record psutil =
  Process :: "pid option \<Rightarrow> exn + process"
  children :: "pid \<Rightarrow> exn + process list"

text \<open>\<^verbatim>\<open>p.is_running() and p.status() != psutil.STATUS_ZOMBIE\<close>\<close>

definition running_and_not_zombie :: "process \<Rightarrow> exn + bool" where
  "running_and_not_zombie p =
     (if \<not> is_running p then Inr False
      else case proc_status p of
             Inl e \<Rightarrow> Inl e
           | Inr st \<Rightarrow> Inr (st \<noteq> STATUS_ZOMBIE))"

section \<open>\<^verbatim>\<open>BackgroundMonitor\<close>: class attributes and liveness of the subprocess\<close>

text \<open>
  The class attributes the modelled methods read or write. \<open>instances\<close> is the dictionary
  from \<^verbatim>\<open>id(task.id)\<close> to the list of registered monitors; a monitor stands in a list by its
  object identity (the class defines no \<^verbatim>\<open>__eq__\<close>, so \<^verbatim>\<open>in\<close> and \<^verbatim>\<open>remove\<close> compare
  identities). A pid is falsy when it is \<^verbatim>\<open>None\<close> or \<open>0\<close>; a task object is truthy.
\<close>

record task =
  id_of :: string

record bm_class =
  main_process :: "pid option"
  main_process_task_id :: "string option"
  parent_pid :: "pid option"
  instances :: "nat \<rightharpoonup> nat list"

definition truthy_pid :: "pid option \<Rightarrow> bool" where
  "truthy_pid p = (case p of None \<Rightarrow> False | Some n \<Rightarrow> n \<noteq> 0)"

definition is_subprocess_enabled :: "bm_class \<Rightarrow> task option \<Rightarrow> bool" where
  "is_subprocess_enabled c t =
     (truthy_pid (main_process c) \<and>
      (case t of None \<Rightarrow> True | Some tk \<Rightarrow> Some (id_of tk) = main_process_task_id c))"

text \<open>The body of the \<^verbatim>\<open>try\<close> statement of \<^verbatim>\<open>is_subprocess_alive\<close>.\<close>

definition direct_lookup :: "psutil \<Rightarrow> bm_class \<Rightarrow> exn + bool" where
  "direct_lookup ps c =
     (case Process ps (main_process c) of
        Inl e \<Rightarrow> Inl e
      | Inr p \<Rightarrow> running_and_not_zombie p)"

text \<open>
  The handler of \<^verbatim>\<open>except Exception\<close>. Only an exception derived from \<^verbatim>\<open>psutil.Error\<close> is
  caught around the lookup of the parent; an exception of \<^verbatim>\<open>children\<close> or of the child's
  \<^verbatim>\<open>status()\<close> leaves the method. The result \<open>Inr None\<close> is Python's \<^verbatim>\<open>None\<close>.
\<close>

definition fallback_lookup :: "psutil \<Rightarrow> bm_class \<Rightarrow> exn + bool option" where
  "fallback_lookup ps c =
     (let current_pid = main_process c
      in if \<not> truthy_pid current_pid then Inr (Some False)
         else case Process ps (parent_pid c) of
                Inl e \<Rightarrow> if e = PsutilError then Inr None else Inl e
              | Inr parent \<Rightarrow>
                  (case children ps (proc_pid parent) of
                     Inl e \<Rightarrow> Inl e
                   | Inr cs \<Rightarrow>
                       (case find (\<lambda>child. Some (proc_pid child) = current_pid) cs of
                          None \<Rightarrow> Inr (Some False)
                        | Some child \<Rightarrow>
                            (case running_and_not_zombie child of
                               Inl e \<Rightarrow> Inl e
                             | Inr b \<Rightarrow> Inr (Some b)))))"

definition is_subprocess_alive :: "psutil \<Rightarrow> bm_class \<Rightarrow> task option \<Rightarrow> exn + bool option" where
  "is_subprocess_alive ps c t =
     (if \<not> truthy_pid (main_process c) \<or>
         (case t of None \<Rightarrow> False | Some tk \<Rightarrow> main_process_task_id c \<noteq> Some (id_of tk))
      then Inr (Some False)
      else case direct_lookup ps c of
             Inr b \<Rightarrow> Inr (Some b)
           | Inl e \<Rightarrow> fallback_lookup ps c)"

section \<open>Events\<close>

text \<open>
  \<^verbatim>\<open>ForkEvent\<close> wraps a \<^verbatim>\<open>threading.Event\<close>, whose state is its flag. \<^verbatim>\<open>SafeEvent\<close> holds a
  \<^verbatim>\<open>multiprocessing.Event\<close>, again a flag. The three events of a monitor are
  \<^verbatim>\<open>ForkEvent\<close>s until \<^verbatim>\<open>set_subprocess_mode\<close> replaces them by \<^verbatim>\<open>SafeEvent\<close>s.
\<close>

type_synonym fork_event = "bool fork_sync"

definition ForkEvent_init :: fork_event where
  "ForkEvent_init = ForkSafeThreadSyncObject_init (\<lambda>_. False)"

definition ForkEvent_set :: "pid \<Rightarrow> fork_event \<Rightarrow> fork_event" where
  "ForkEvent_set cur fe = (let fe' = create cur fe in fe'\<lparr>sync := Some True\<rparr>)"

definition ForkEvent_clear :: "pid \<Rightarrow> fork_event \<Rightarrow> fork_event" where
  "ForkEvent_clear cur fe =
     (if sync fe = None then fe
      else let fe' = create cur fe in fe'\<lparr>sync := Some False\<rparr>)"


record safe_event =
  process_event :: bool

definition SafeEvent_init :: safe_event where
  "SafeEvent_init = \<lparr>process_event = False\<rparr>"


definition SafeEvent_clear :: "safe_event \<Rightarrow> safe_event" where
  "SafeEvent_clear ev = ev\<lparr>process_event := False\<rparr>"

definition SafeEvent_set :: "psutil \<Rightarrow> bm_class \<Rightarrow> safe_event \<Rightarrow> (unit, safe_event) outcome" where
  "SafeEvent_set ps c ev =
     (if \<not> is_subprocess_enabled c None then Return () (ev\<lparr>process_event := True\<rparr>)
      else case is_subprocess_alive ps c None of
             Inl e \<Rightarrow> Raise e ev
           | Inr r \<Rightarrow> if r = Some True then Return () (ev\<lparr>process_event := True\<rparr>)
                      else Return () ev)"

datatype event = ForkEv fork_event | SafeEv safe_event

fun event_set :: "pid \<Rightarrow> psutil \<Rightarrow> bm_class \<Rightarrow> event \<Rightarrow> (unit, event) outcome" where
  "event_set cur ps c (ForkEv fe) = Return () (ForkEv (ForkEvent_set cur fe))"
| "event_set cur ps c (SafeEv se) =
     (case SafeEvent_set ps c se of
        Return r se' \<Rightarrow> Return () (SafeEv se')
      | Raise e se' \<Rightarrow> Raise e (SafeEv se'))"

fun event_clear :: "pid \<Rightarrow> event \<Rightarrow> event" where
  "event_clear cur (ForkEv fe) = ForkEv (ForkEvent_clear cur fe)"
| "event_clear cur (SafeEv se) = SafeEv (SafeEvent_clear se)"


section \<open>\<^verbatim>\<open>BackgroundMonitor\<close> instances: \<^verbatim>\<open>start\<close> and \<^verbatim>\<open>stop\<close>\<close>

text \<open>
  \<^verbatim>\<open>_thread\<close> is \<^verbatim>\<open>None\<close>, a boolean or a \<^verbatim>\<open>Thread\<close> object (named by a number);
  \<^verbatim>\<open>_subprocess\<close> is \<^verbatim>\<open>None\<close>, \<^verbatim>\<open>False\<close> or \<^verbatim>\<open>True\<close>. Besides the class attributes the world
  holds the number of the next thread to be created and the threads whose \<^verbatim>\<open>join()\<close>
  returned, in call order.
\<close>

datatype thread_val = TNone | TBool bool | TThread nat

fun truthy_thread :: "thread_val \<Rightarrow> bool" where
  "truthy_thread TNone = False"
| "truthy_thread (TBool b) = b"
| "truthy_thread (TThread t) = True"

record monitor =
  oid :: nat
  event :: event
  done_ev :: event
  start_ev :: event
  task_pid :: pid
  thread :: thread_val
  thread_pid :: "pid option"
  subprocess :: "bool option"
  task_id :: string
  task_obj_id :: nat

record bm_world =
  cls :: bm_class
  next_thread :: nat
  joined :: "nat list"



text \<open>\<^verbatim>\<open>self._instances.setdefault(self._task_obj_id, [])\<close>: the dictionary after the call and the list.\<close>

definition get_instances :: "bm_class \<Rightarrow> monitor \<Rightarrow> bm_class \<times> nat list" where
  "get_instances c m =
     (case instances c (task_obj_id m) of
        None \<Rightarrow> (c\<lparr>instances := (instances c)(task_obj_id m \<mapsto> [])\<rparr>, [])
      | Some l \<Rightarrow> (c, l))"

text \<open>
  \<^verbatim>\<open>_start\<close>: the initialisation of the metrics upload pools belongs to another module and
  touches nothing modelled here.
\<close>

definition start_thread :: "pid \<Rightarrow> bm_world \<Rightarrow> monitor \<Rightarrow> bm_world \<times> monitor" where
  "start_thread cur w m =
     (if (case thread m of TThread t \<Rightarrow> thread_pid m = Some cur | _ \<Rightarrow> False) then (w, m)
      else (w\<lparr>next_thread := Suc (next_thread w)\<rparr>,
            m\<lparr>thread_pid := Some cur, thread := TThread (next_thread w)\<rparr>))"

definition start :: "pid \<Rightarrow> bm_world \<Rightarrow> monitor \<Rightarrow> bm_world \<times> monitor" where
  "start cur w m =
     (let m1 = (if \<not> truthy_thread (thread m) then m\<lparr>thread := TBool True\<rparr> else m);
          m2 = m1\<lparr>event := event_clear cur (event m1)\<rparr>;
          m3 = m2\<lparr>done_ev := event_clear cur (done_ev m2)\<rparr>
      in if subprocess m3 = Some False then start_thread cur w m3
         else (case get_instances (cls w) m3 of
                 (c1, l1) \<Rightarrow>
                   if oid m3 \<notin> set l1
                   then (case get_instances c1 m3 of
                           (c2, l2) \<Rightarrow>
                             (w\<lparr>cls := c2\<lparr>instances := (instances c2)(task_obj_id m3 \<mapsto> l2 @ [oid m3])\<rparr>\<rparr>,
                              m3))
                   else (w\<lparr>cls := c1\<rparr>, m3)))"

fun start_n :: "pid \<Rightarrow> nat \<Rightarrow> bm_world \<times> monitor \<Rightarrow> bm_world \<times> monitor" where
  "start_n cur 0 st = st"
| "start_n cur (Suc n) (w, m) = start_n cur n (start cur w m)"

text \<open>The list registered for a task, empty when the dictionary has no entry.\<close>

definition registry :: "bm_class \<Rightarrow> nat \<Rightarrow> nat list" where
  "registry c k = (case instances c k of None \<Rightarrow> [] | Some l \<Rightarrow> l)"








section \<open>Notions used in the statements and proofs\<close>

definition items :: "'x fork_queue option \<Rightarrow> 'x list" where
  "items fqo = (case fqo of None \<Rightarrow> [] | Some fq \<Rightarrow> (case sync fq of None \<Rightarrow> [] | Some xs \<Rightarrow> xs))"

definition fq_ok :: "pid \<Rightarrow> 'x fork_queue option \<Rightarrow> bool" where
  "fq_ok cur fqo =
     (case fqo of
        None \<Rightarrow> True
      | Some fq \<Rightarrow> (sync fq = None \<or> instance_pid fq = Some cur) \<and> sync_functor fq () = [])"

definition pending :: "safe_queue \<Rightarrow> bytes list" where
  "pending s = items (internal_q s) @ q s @ map fst (items (thread_pool s))"

definition good_env :: "'a env \<Rightarrow> bool" where
  "good_env env \<longleftrightarrow>
     (\<forall>x. \<exists>b. dumps env x = Inr b \<and> loads env b = Inr x) \<and> (\<forall>b. q_put_ok env b) \<and> pool_ok env"

definition consistent :: "'a env \<Rightarrow> safe_queue \<Rightarrow> bool" where
  "consistent env s \<longleftrightarrow>
     fq_ok (getpid env) (internal_q s) \<and> fq_ok (getpid env) (thread_pool s) \<and>
     ((thread_pool s = None \<and> thread_pool_pid s = None) \<or>
      (thread_pool s \<noteq> None \<and> thread_pool_pid s = Some (getpid env))) \<and>
     (at_exit env \<longrightarrow> items (thread_pool s) = []) \<and>
     (reader_thread s \<longrightarrow> internal_q s \<noteq> None)"

definition fifo_inv :: "'a env \<Rightarrow> 'a list \<Rightarrow> safe_queue \<times> 'a list \<Rightarrow> bool" where
  "fifo_inv env ins st =
     (case st of (s, outs) \<Rightarrow>
        consistent env s \<and> (\<exists>vs. ins = outs @ vs \<and> map (loads env) (pending s) = map Inr vs))"

definition after_get :: "'a env \<Rightarrow> safe_queue \<Rightarrow> safe_queue \<Rightarrow> bool" where
  "after_get env s s' \<longleftrightarrow>
     consistent env s' \<and> thread_pool s' = thread_pool s \<and> q s' = q s \<and> reader_thread s' \<and>
     items (internal_q s') = tl (items (internal_q s))"



text \<open>The steps of a schedule on the queue alone, under one fixed at-exit state.\<close>

fun queue_step :: "'a env \<Rightarrow> safe_queue \<times> 'a list \<Rightarrow> 'a action \<Rightarrow> safe_queue \<times> 'a list" where
  "queue_step env (s, outs) (Put x) = (state_of (put env x s), outs)"
| "queue_step env (s, outs) Get =
     (case SafeQueue_get env s of
        Return (Some v) s' \<Rightarrow> (s', outs @ [v])
      | Return None s' \<Rightarrow> (s', outs)
      | Raise e s' \<Rightarrow> (s', outs))"
| "queue_step env (s, outs) Worker = (worker env s, outs)"
| "queue_step env (s, outs) Reader = (reader_daemon env s, outs)"
| "queue_step env (s, outs) (SetAtExit b) = (s, outs)"

definition queue_run :: "'a env \<Rightarrow> 'a action list \<Rightarrow> safe_queue \<times> 'a list" where
  "queue_run env acts = foldl (queue_step env) (SafeQueue_init, []) acts"


section \<open>Concrete environments and states\<close>

text \<open>
  A pickle that prefixes a tag byte, a process with pid 5 whose pool and interprocess
  queue accept everything, and the class attributes of \<^verbatim>\<open>BackgroundMonitor\<close> as the fork in
  \<^verbatim>\<open>start_all\<close> leaves them in the parent process 10 with subprocess 20.
\<close>

definition tag_dumps :: "bytes \<Rightarrow> exn + bytes" where
  "tag_dumps x = Inr (128 # x)"

definition tag_loads :: "bytes \<Rightarrow> exn + bytes" where
  "tag_loads b = (case b of [] \<Rightarrow> Inl PickleError | h # t \<Rightarrow> Inr t)"

definition example_env :: "bytes env" where
  "example_env =
     \<lparr>getpid = 5, at_exit = False, dumps = tag_dumps, loads = tag_loads, pool_ok = True,
      q_put_ok = (\<lambda>b. True)\<rparr>"

definition forked_class :: bm_class where
  "forked_class =
     \<lparr>main_process = Some 20, main_process_task_id = Some ''task'', parent_pid = Some 10,
      instances = [77 \<mapsto> [1]]\<rparr>"

definition forked_world :: bm_world where
  "forked_world = \<lparr>cls = forked_class, next_thread = 4, joined = []\<rparr>"

definition psutil_alive :: psutil where
  "psutil_alive =
     \<lparr>Process = (\<lambda>p. if p = Some 20
                     then Inr \<lparr>proc_pid = 20, is_running = True, proc_status = Inr STATUS_SLEEPING\<rparr>
                     else Inl PsutilError),
      children = (\<lambda>p. Inr [])\<rparr>"

definition psutil_dead :: psutil where
  "psutil_dead =
     \<lparr>Process = (\<lambda>p. if p = Some 20
                     then Inr \<lparr>proc_pid = 20, is_running = False, proc_status = Inl PsutilError\<rparr>
                     else Inl PsutilError),
      children = (\<lambda>p. Inr [])\<rparr>"

definition psutil_gone :: psutil where
  "psutil_gone = \<lparr>Process = (\<lambda>p. Inl PsutilError), children = (\<lambda>p. Inr [])\<rparr>"

definition pending_monitor :: monitor where
  "pending_monitor =
     \<lparr>oid = 1, event = ForkEv ForkEvent_init, done_ev = ForkEv ForkEvent_init,
      start_ev = ForkEv ForkEvent_init, task_pid = 10, thread = TBool True, thread_pid = None,
      subprocess = None, task_id = ''task'', task_obj_id = 77\<rparr>"


section \<open>Lemmas\<close>

lemma ForkQueue_init_code [code]:
  "ForkQueue_init = \<lparr>sync = None, instance_pid = None, sync_functor = (\<lambda>_. [])\<rparr>"
  by (simp add: ForkQueue_init_def ForkSafeThreadSyncObject_init_def)

lemma pop_loop_Some_own: "pop_loop pid (Some pid) qs = qs"
  by (simp add: pop_loop.simps)

lemma pop_loop_Nil: "pop_loop pid p [] = []"
  by (simp add: pop_loop.simps)

lemma pop_loop_snoc:
  "p \<noteq> Some pid \<Longrightarrow> pop_loop pid p (qs @ [x]) = (if x = pid then qs else pop_loop pid (Some x) qs)"
  by (subst pop_loop.simps) (simp add: pop_loop_Some_own)

lemma pop_loop_rev:
  "p \<noteq> Some pid \<Longrightarrow> pop_loop pid p qs = rev (tl (dropWhile (\<lambda>x. x \<noteq> pid) (rev qs)))"
proof (induction qs arbitrary: p rule: rev_induct)
  case Nil
  then show ?case by (simp add: pop_loop_Nil)
next
  case (snoc x xs)
  then show ?case by (simp add: pop_loop_snoc)
qed

lemma count_pop_loop:
  "p \<noteq> Some pid \<Longrightarrow>
   length (filter (\<lambda>x. x = pid) (pop_loop pid p qs)) = length (filter (\<lambda>x. x = pid) qs) - 1"
proof (induction qs arbitrary: p rule: rev_induct)
  case Nil
  then show ?case by (simp add: pop_loop_Nil)
next
  case (snoc x xs)
  then show ?case by (simp add: pop_loop_snoc)
qed

lemma pop_loop_last_own:
  "qs \<noteq> [] \<Longrightarrow> last qs = pid \<Longrightarrow> pop_loop pid None qs = butlast qs"
  by (cases qs rule: rev_cases) (simp_all add: pop_loop_snoc)

lemma items_init: "items (Some ForkQueue_init) = []"
  by (simp add: items_def ForkQueue_init_def ForkSafeThreadSyncObject_init_def)

lemma fq_ok_init: "fq_ok cur (Some ForkQueue_init)"
  by (simp add: fq_ok_def ForkQueue_init_def ForkSafeThreadSyncObject_init_def)

lemma items_put:
  "fq_ok cur (Some fq) \<Longrightarrow> items (Some (ForkQueue_put cur x fq)) = items (Some fq) @ [x]"
  by (auto simp: fq_ok_def items_def ForkQueue_put_def create_def Let_def split: option.splits)

lemma fq_ok_put:
  "fq_ok cur (Some fq) \<Longrightarrow> fq_ok cur (Some (ForkQueue_put cur x fq))"
  by (auto simp: fq_ok_def ForkQueue_put_def create_def Let_def split: option.splits)

lemma ForkQueue_get_empty:
  "fq_ok cur (Some fq) \<Longrightarrow> items (Some fq) = [] \<Longrightarrow>
   fst (ForkQueue_get cur fq) = None \<and> items (Some (snd (ForkQueue_get cur fq))) = [] \<and>
   fq_ok cur (Some (snd (ForkQueue_get cur fq)))"
  by (auto simp: fq_ok_def items_def ForkQueue_get_def create_def Let_def split: option.splits list.splits)

lemma ForkQueue_get_nonempty:
  "fq_ok cur (Some fq) \<Longrightarrow> items (Some fq) = x # xs \<Longrightarrow>
   fst (ForkQueue_get cur fq) = Some x \<and> items (Some (snd (ForkQueue_get cur fq))) = xs \<and>
   fq_ok cur (Some (snd (ForkQueue_get cur fq)))"
  by (auto simp: fq_ok_def items_def ForkQueue_get_def create_def Let_def split: option.splits list.splits)

lemma fifo_invI:
  "consistent env s \<Longrightarrow> ins = outs @ vs \<Longrightarrow> map (loads env) (pending s) = map Inr vs \<Longrightarrow>
   fifo_inv env ins (s, outs)"
  unfolding fifo_inv_def by auto

lemma fifo_inv_init: "fifo_inv env [] (SafeQueue_init, [])"
  by (simp add: fifo_inv_def consistent_def SafeQueue_init_def fq_ok_def items_def pending_def)

lemma fifo_inv_put:
  assumes g: "good_env env" and i: "fifo_inv env ins (s, outs)"
  shows "fifo_inv env (ins @ [x]) (state_of (put env x s), outs)"
proof -
  from g obtain b where b: "dumps env x = Inr b" "loads env b = Inr x"
    unfolding good_env_def by blast
  from g have w: "q_put_ok env b" and p: "pool_ok env" unfolding good_env_def by auto
  from i obtain vs where vs: "ins = outs @ vs" "map (loads env) (pending s) = map Inr vs"
    and consistent: "consistent env s"
    unfolding fifo_inv_def by auto
  have ins: "ins @ [x] = outs @ (vs @ [x])" using vs by simp
  show ?thesis
  proof (cases "at_exit env")
    case True
    with consistent have e: "items (thread_pool s) = []" unfolding consistent_def by simp
    have st: "state_of (put env x s) = s\<lparr>q := q s @ [b], q_size := q_size s\<rparr>"
      using True b w by (simp add: put_def put_try_def q_put_def Let_def pop_loop_snoc)
    have d: "map (loads env) (pending (state_of (put env x s))) = map Inr (vs @ [x])"
      using vs e b by (simp add: st pending_def)
    have "consistent env (state_of (put env x s))" using consistent unfolding st consistent_def by simp
    then show ?thesis using ins d by (rule fifo_invI)
  next
    case False
    show ?thesis
    proof (cases "thread_pool s")
      case None
      with consistent have pp: "thread_pool_pid s = None" unfolding consistent_def by auto
      have st: "state_of (put env x s) =
          s\<lparr>q_size := q_size s @ [getpid env],
            thread_pool := Some (ForkQueue_put (getpid env) (b, False) ForkQueue_init),
            thread_pool_pid := Some (getpid env)\<rparr>"
        using False b p None pp
        by (simp add: put_def put_try_def Let_def apply_async_def SingletonThreadPool_get_def)
      have "items (thread_pool s) = []" using None by (simp add: items_def)
      then have d: "map (loads env) (pending (state_of (put env x s))) = map Inr (vs @ [x])"
        using vs b by (simp add: st pending_def items_put fq_ok_init items_init)
      have "consistent env (state_of (put env x s))" using consistent False unfolding st consistent_def
        by (simp add: fq_ok_put fq_ok_init)
      then show ?thesis using ins d by (rule fifo_invI)
    next
      case (Some tq)
      with consistent have pp: "thread_pool_pid s = Some (getpid env)" and ok: "fq_ok (getpid env) (Some tq)"
        unfolding consistent_def by auto
      have st: "state_of (put env x s) =
          s\<lparr>q_size := q_size s @ [getpid env],
            thread_pool := Some (ForkQueue_put (getpid env) (b, False) tq)\<rparr>"
        using False b p Some pp
        by (simp add: put_def put_try_def Let_def apply_async_def SingletonThreadPool_get_def)
      have d: "map (loads env) (pending (state_of (put env x s))) = map Inr (vs @ [x])"
        using vs b Some ok by (simp add: st pending_def items_put)
      have "consistent env (state_of (put env x s))" using consistent False Some ok unfolding st consistent_def
        by (simp add: fq_ok_put)
      then show ?thesis using ins d by (rule fifo_invI)
    qed
  qed
qed

lemma worker_idle:
  assumes consistent: "consistent env s" and e: "items (thread_pool s) = []"
  shows "consistent env (worker env s) \<and> pending (worker env s) = pending s \<and>
         items (thread_pool (worker env s)) = [] \<and> q (worker env s) = q s \<and>
         internal_q (worker env s) = internal_q s \<and> reader_thread (worker env s) = reader_thread s"
proof (cases "thread_pool s")
  case None
  then show ?thesis using consistent e by (simp add: worker_def)
next
  case (Some tq)
  with consistent have ok: "fq_ok (getpid env) (Some tq)" unfolding consistent_def by simp
  from e Some have "items (Some tq) = []" by simp
  from ForkQueue_get_empty [OF ok this]
  obtain tq' where g: "ForkQueue_get (getpid env) tq = (None, tq')"
    and t: "items (Some tq') = []" "fq_ok (getpid env) (Some tq')"
    by (cases "ForkQueue_get (getpid env) tq") auto
  have st: "worker env s = s\<lparr>thread_pool := Some tq'\<rparr>"
    using Some g by (simp add: worker_def)
  show ?thesis using consistent e t Some unfolding st consistent_def pending_def by simp
qed

lemma worker_busy:
  assumes g: "good_env env" and consistent: "consistent env s" and e: "items (thread_pool s) = r # rs"
  shows "consistent env (worker env s) \<and> pending (worker env s) = pending s \<and>
         items (thread_pool (worker env s)) = rs \<and> q (worker env s) = q s @ [fst r] \<and>
         internal_q (worker env s) = internal_q s \<and> reader_thread (worker env s) = reader_thread s"
proof (cases "thread_pool s")
  case None
  then show ?thesis using e by (simp add: items_def)
next
  case (Some tq)
  with consistent have ok: "fq_ok (getpid env) (Some tq)" unfolding consistent_def by simp
  from consistent e have na: "\<not> at_exit env" unfolding consistent_def by auto
  from e Some have "items (Some tq) = r # rs" by simp
  from ForkQueue_get_nonempty [OF ok this]
  obtain tq' where gt: "ForkQueue_get (getpid env) tq = (Some r, tq')"
    and t: "items (Some tq') = rs" "fq_ok (getpid env) (Some tq')"
    by (cases "ForkQueue_get (getpid env) tq") auto
  from g have w: "q_put_ok env (fst r)" unfolding good_env_def by simp
  have st: "worker env s =
      s\<lparr>thread_pool := Some tq', q := q s @ [fst r],
        q_size := pop_loop (getpid env) None (q_size s)\<rparr>"
    using Some gt w by (cases r) (simp add: worker_def q_put_def Let_def)
  show ?thesis using consistent e t Some na unfolding st consistent_def pending_def by simp
qed

lemma fifo_inv_worker:
  assumes g: "good_env env" and i: "fifo_inv env ins (s, outs)"
  shows "fifo_inv env ins (worker env s, outs)"
proof (cases "items (thread_pool s)")
  case Nil
  with worker_idle [of env s] i show ?thesis unfolding fifo_inv_def by auto
next
  case (Cons r rs)
  with worker_busy [OF g, of s r rs] i show ?thesis unfolding fifo_inv_def by auto
qed

lemma reader_moves:
  assumes consistent: "consistent env s" and r: "reader_thread s" and e: "q s = b # bs"
  shows "consistent env (reader_daemon env s) \<and> pending (reader_daemon env s) = pending s \<and>
         q (reader_daemon env s) = bs \<and>
         items (internal_q (reader_daemon env s)) = items (internal_q s) @ [b] \<and>
         thread_pool (reader_daemon env s) = thread_pool s \<and> reader_thread (reader_daemon env s)"
proof -
  from consistent r obtain iq where iq: "internal_q s = Some iq" unfolding consistent_def by auto
  with consistent have ok: "fq_ok (getpid env) (Some iq)" unfolding consistent_def by simp
  have st: "reader_daemon env s = s\<lparr>q := bs, internal_q := Some (ForkQueue_put (getpid env) b iq)\<rparr>"
    using r e iq by (simp add: reader_daemon_def)
  show ?thesis using consistent r e iq ok unfolding st consistent_def pending_def
    by (simp add: items_put fq_ok_put)
qed

lemma reader_idle:
  "\<not> reader_thread s \<or> q s = [] \<Longrightarrow> reader_daemon env s = s"
  by (auto simp: reader_daemon_def)

lemma fifo_inv_reader:
  assumes i: "fifo_inv env ins (s, outs)"
  shows "fifo_inv env ins (reader_daemon env s, outs)"
proof (cases "reader_thread s \<and> q s \<noteq> []")
  case True
  then obtain b bs where "q s = b # bs" by (cases "q s") auto
  with reader_moves [of env s b bs] True i show ?thesis unfolding fifo_inv_def by auto
next
  case False
  then have "reader_daemon env s = s" by (auto simp: reader_idle)
  with i show ?thesis by simp
qed

lemma consistent_init_reader:
  assumes consistent: "consistent env s"
  shows "consistent env (init_reader_thread s) \<and> pending (init_reader_thread s) = pending s \<and>
         items (internal_q (init_reader_thread s)) = items (internal_q s) \<and>
         q (init_reader_thread s) = q s \<and> thread_pool (init_reader_thread s) = thread_pool s \<and>
         reader_thread (init_reader_thread s) \<and> internal_q (init_reader_thread s) \<noteq> None"
  using consistent
  by (cases "internal_q s")
     (auto simp: init_reader_thread_def consistent_def pending_def Let_def items_init fq_ok_init,
      auto simp: items_def)

lemma get_blocked:
  assumes consistent: "consistent env s" and e: "items (internal_q s) = []"
  shows "\<exists>s'. SafeQueue_get env s = Return None s' \<and> after_get env s s'"
proof -
  let ?s1 = "init_reader_thread s"
  from consistent_init_reader [OF consistent] obtain iq where iq: "internal_q ?s1 = Some iq"
    and w1: "consistent env ?s1" and i1: "items (internal_q ?s1) = items (internal_q s)"
    and r1: "q ?s1 = q s" "thread_pool ?s1 = thread_pool s" "reader_thread ?s1"
    by auto
  from w1 iq have ok: "fq_ok (getpid env) (Some iq)" unfolding consistent_def by simp
  from i1 iq e have "items (Some iq) = []" by simp
  from ForkQueue_get_empty [OF ok this]
  obtain iq' where g: "ForkQueue_get (getpid env) iq = (None, iq')"
    and t: "items (Some iq') = []" "fq_ok (getpid env) (Some iq')"
    by (cases "ForkQueue_get (getpid env) iq") auto
  have "SafeQueue_get env s = Return None (?s1\<lparr>internal_q := Some iq'\<rparr>)"
    using iq g by (simp add: SafeQueue_get_def get_internal_queue_def Let_def)
  moreover have "after_get env s (?s1\<lparr>internal_q := Some iq'\<rparr>)"
    using w1 r1 t e unfolding after_get_def consistent_def by simp
  ultimately show ?thesis by blast
qed

lemma get_item:
  assumes consistent: "consistent env s" and e: "items (internal_q s) = b # bs"
  shows "\<exists>s'. SafeQueue_get env s =
            (case loads env b of Inl e \<Rightarrow> Raise e s' | Inr v \<Rightarrow> Return (Some v) s') \<and>
          after_get env s s'"
proof -
  let ?s1 = "init_reader_thread s"
  from consistent_init_reader [OF consistent] obtain iq where iq: "internal_q ?s1 = Some iq"
    and w1: "consistent env ?s1" and i1: "items (internal_q ?s1) = items (internal_q s)"
    and r1: "q ?s1 = q s" "thread_pool ?s1 = thread_pool s" "reader_thread ?s1"
    by auto
  from w1 iq have ok: "fq_ok (getpid env) (Some iq)" unfolding consistent_def by simp
  from i1 iq e have "items (Some iq) = b # bs" by simp
  from ForkQueue_get_nonempty [OF ok this]
  obtain iq' where g: "ForkQueue_get (getpid env) iq = (Some b, iq')"
    and t: "items (Some iq') = bs" "fq_ok (getpid env) (Some iq')"
    by (cases "ForkQueue_get (getpid env) iq") auto
  have "SafeQueue_get env s =
      (case loads env b of Inl e \<Rightarrow> Raise e (?s1\<lparr>internal_q := Some iq'\<rparr>)
       | Inr v \<Rightarrow> Return (Some v) (?s1\<lparr>internal_q := Some iq'\<rparr>))"
    using iq g by (simp add: SafeQueue_get_def get_internal_queue_def Let_def)
  moreover have "after_get env s (?s1\<lparr>internal_q := Some iq'\<rparr>)"
    using w1 r1 t e unfolding after_get_def consistent_def by simp
  ultimately show ?thesis by blast
qed

lemma after_get_pending:
  "after_get env s s' \<Longrightarrow> pending s' = tl (items (internal_q s)) @ q s @ map fst (items (thread_pool s))"
  by (simp add: after_get_def pending_def)


lemma fifo_inv_get:
  assumes i: "fifo_inv env ins (s, outs)"
  shows "fifo_inv env ins (queue_step env (s, outs) Get)"
proof -
  from i obtain vs where vs: "ins = outs @ vs" "map (loads env) (pending s) = map Inr vs"
    and consistent: "consistent env s"
    unfolding fifo_inv_def by auto
  show ?thesis
  proof (cases "items (internal_q s)")
    case Nil
    from get_blocked [OF consistent Nil] obtain s' where
      g: "SafeQueue_get env s = Return None s'" and a: "after_get env s s'" by blast
    have "pending s' = pending s" using after_get_pending [OF a] Nil by (simp add: pending_def)
    with vs a have "fifo_inv env ins (s', outs)" by (auto simp: after_get_def intro: fifo_invI)
    with g show ?thesis by simp
  next
    case (Cons b bs)
    from get_item [OF consistent Cons] obtain s' where
      g: "SafeQueue_get env s =
            (case loads env b of Inl e \<Rightarrow> Raise e s' | Inr v \<Rightarrow> Return (Some v) s')"
      and a: "after_get env s s'" by blast
    from vs(2) Cons obtain v vs' where v: "vs = v # vs'" "loads env b = Inr v"
      by (cases vs) (auto simp: pending_def)
    have p: "pending s = b # pending s'" using after_get_pending [OF a] Cons by (simp add: pending_def)
    with vs v have "map (loads env) (pending s') = map Inr vs'" by simp
    moreover have "ins = (outs @ [v]) @ vs'" using vs v by simp
    moreover have "consistent env s'" using a by (simp add: after_get_def)
    ultimately have "fifo_inv env ins (s', outs @ [v])" by (intro fifo_invI)
    with g v show ?thesis by simp
  qed
qed

lemma puts_of_append: "puts_of (as @ bs) = puts_of as @ puts_of bs"
  by (induction as rule: puts_of.induct) simp_all

lemma fifo_inv_step:
  assumes g: "good_env env" and i: "fifo_inv env ins st"
  shows "fifo_inv env (ins @ puts_of [a]) (queue_step env st a)"
proof (cases st)
  case (Pair s outs)
  show ?thesis
  proof (cases a)
    case (Put x)
    with fifo_inv_put [OF g] i Pair show ?thesis by simp
  next
    case Get
    with fifo_inv_get i Pair show ?thesis by simp
  next
    case Worker
    with fifo_inv_worker [OF g] i Pair show ?thesis by simp
  next
    case Reader
    with fifo_inv_reader i Pair show ?thesis by simp
  next
    case (SetAtExit b)
    with i Pair show ?thesis by simp
  qed
qed

lemma fifo_inv_foldl:
  assumes g: "good_env env"
  shows "fifo_inv env ins st \<Longrightarrow> fifo_inv env (ins @ puts_of acts) (foldl (queue_step env) st acts)"
proof (induction acts arbitrary: ins st)
  case Nil
  then show ?case by simp
next
  case (Cons a acts)
  from fifo_inv_step [OF g Cons.prems, of a]
  have "fifo_inv env (ins @ puts_of [a]) (queue_step env st a)" .
  from Cons.IH [OF this] show ?case
    using puts_of_append [of "[a]" acts] by simp
qed

lemma fifo_inv_run: "good_env env \<Longrightarrow> fifo_inv env (puts_of acts) (queue_run env acts)"
  using fifo_inv_foldl [of env "[]" "(SafeQueue_init, [])" acts] fifo_inv_init [of env]
  by (simp add: queue_run_def)








lemma horner4:
  fixes n :: nat
  shows "((n div 256 div 256 div 256 * 256 + n div 256 div 256 mod 256) * 256 + n div 256 mod 256) * 256 + n mod 256 = n"
  by simp

lemma be_value_word:
  fixes w :: "32 word"
  shows "be_value [ucast (drop_bit 24 w), ucast (drop_bit 16 w), ucast (drop_bit 8 w), ucast w :: byte] = unat w"
proof -
  let ?n = "unat w"
  have lt: "?n < 2 ^ 32" using unsigned_less [of w] by simp
  have d8: "?n div 2 ^ 8 = ?n div 256" by simp
  have d16: "?n div 2 ^ 16 = ?n div 256 div 256" by (simp add: div_mult2_eq [symmetric])
  have d24: "?n div 2 ^ 24 = ?n div 256 div 256 div 256" by (simp add: div_mult2_eq [symmetric])
  have "?n div 2 ^ 24 < 2 ^ 8" using lt by (simp add: less_mult_imp_div_less)
  then have top: "?n div 256 div 256 div 256 mod 256 = ?n div 256 div 256 div 256"
    using d24 by simp
  have b3: "unat (ucast (drop_bit 24 w) :: byte) = ?n div 256 div 256 div 256"
    using top d24 by (simp add: unsigned_ucast_eq unat_drop_bit_eq take_bit_eq_mod drop_bit_eq_div unat_div)
  have b2: "unat (ucast (drop_bit 16 w) :: byte) = ?n div 256 div 256 mod 256"
    using d16 by (simp add: unsigned_ucast_eq unat_drop_bit_eq take_bit_eq_mod drop_bit_eq_div unat_div)
  have b1: "unat (ucast (drop_bit 8 w) :: byte) = ?n div 256 mod 256"
    using d8 by (simp add: unsigned_ucast_eq unat_drop_bit_eq take_bit_eq_mod drop_bit_eq_div unat_div)
  have b0: "unat (ucast w :: byte) = ?n mod 256"
    by (simp add: unsigned_ucast_eq take_bit_eq_mod)
  have "be_value [ucast (drop_bit 24 w), ucast (drop_bit 16 w), ucast (drop_bit 8 w), ucast w :: byte] =
      ((?n div 256 div 256 div 256 * 256 + ?n div 256 div 256 mod 256) * 256 + ?n div 256 mod 256) * 256 + ?n mod 256"
    unfolding be_value_def foldl.simps b3 b2 b1 b0 by simp
  also have "\<dots> = ?n" by (rule horner4)
  finally show ?thesis .
qed

lemma struct_pack_i_small:
  assumes "n < 2 ^ 31"
  shows "\<exists>header. struct_pack_i (int n) = Inr header \<and> length header = 4 \<and> be_value header = n"
proof -
  let ?w = "word_of_int (int n) :: 32 word"
  have "unat ?w = n" using assms by (simp add: unat_of_nat)
  with be_value_word [of ?w] assms show ?thesis
    by (simp add: struct_pack_i_def Let_def)
qed

lemma send_bytes_too_long:
  assumes "2 ^ 31 \<le> length buf"
  shows "pipe_override_send_bytes conn buf = Raise StructError conn"
proof -
  from assms have "(2 :: int) ^ 31 \<le> int (length buf)"
    by (metis of_nat_le_iff of_nat_numeral of_nat_power)
  then have "\<not> int (length buf) < 2 ^ 31" by simp
  then show ?thesis by (simp add: pipe_override_send_bytes_def struct_pack_i_def Let_def)
qed

lemma good_env_at_exit [simp]: "good_env (env\<lparr>at_exit := b\<rparr>) = good_env env"
  by (simp add: good_env_def)











lemma event_set_state:
  "event_set cur ps c ev = Return r ev' \<Longrightarrow> state_of (event_set cur ps c ev) = ev'"
  "event_set cur ps c ev = Raise e ev' \<Longrightarrow> state_of (event_set cur ps c ev) = ev'"
  by simp_all










lemma start_registry:
  assumes "subprocess m \<noteq> Some False"
  shows "registry (cls (fst (start cur w m))) (task_obj_id m) =
           (if oid m \<in> set (registry (cls w) (task_obj_id m))
            then registry (cls w) (task_obj_id m)
            else registry (cls w) (task_obj_id m) @ [oid m])"
    and "oid (snd (start cur w m)) = oid m"
    and "task_obj_id (snd (start cur w m)) = task_obj_id m"
    and "subprocess (snd (start cur w m)) = subprocess m"
  using assms
  by (auto simp: start_def Let_def get_instances_def registry_def split: option.splits)

lemma start_count:
  assumes "subprocess m \<noteq> Some False"
    and "count_list (registry (cls w) (task_obj_id m)) (oid m) \<le> 1"
  shows "count_list (registry (cls (fst (start cur w m))) (task_obj_id m)) (oid m) = 1"
proof (cases "oid m \<in> set (registry (cls w) (task_obj_id m))")
  case True
  then have "count_list (registry (cls w) (task_obj_id m)) (oid m) \<noteq> 0"
    by (simp add: count_list_0_iff)
  with assms True show ?thesis by (simp add: start_registry(1))
next
  case False
  then have "count_list (registry (cls w) (task_obj_id m)) (oid m) = 0"
    by (simp add: count_list_0_iff)
  with assms False show ?thesis by (simp add: start_registry(1))
qed

lemma start_n_count:
  "subprocess m \<noteq> Some False \<Longrightarrow>
   count_list (registry (cls w) (task_obj_id m)) (oid m) \<le> 1 \<Longrightarrow>
   count_list (registry (cls (fst (start_n cur n (w, m)))) (task_obj_id m)) (oid m) =
     (if n = 0 then count_list (registry (cls w) (task_obj_id m)) (oid m) else 1)"
proof (induction n arbitrary: w m)
  case 0
  then show ?case by simp
next
  case (Suc n)
  obtain w' m' where s: "start cur w m = (w', m')" by (cases "start cur w m")
  from start_registry(2-4) [OF Suc.prems(1), of cur w] s
  have f: "oid m' = oid m" "task_obj_id m' = task_obj_id m" "subprocess m' = subprocess m" by simp_all
  from start_count [OF Suc.prems, of cur] s
  have c: "count_list (registry (cls w') (task_obj_id m)) (oid m) = 1" by simp
  from Suc.IH [of m' w'] f c Suc.prems(1) s show ?case by (cases n) auto
qed

section \<open>Properties of \<^verbatim>\<open>ForkQueue\<close>\<close>

text \<open>
  C9. On a \<^verbatim>\<open>ForkQueue\<close> whose inner queue has not been created (\<^verbatim>\<open>_sync\<close> is \<^verbatim>\<open>None\<close>, as
  \<^verbatim>\<open>__init__\<close> leaves it), in any process, \<^verbatim>\<open>empty()\<close> returns \<^verbatim>\<open>True\<close>, \<^verbatim>\<open>full()\<close> returns
  \<^verbatim>\<open>False\<close> and \<^verbatim>\<open>close()\<close> returns; none of them raises and each leaves the object as it
  was, so the inner queue is still not constructed. A fresh instance is such an object.
\<close>

theorem ForkQueue_fresh_empty_full_close:
  "sync fq = None \<Longrightarrow>
     ForkQueue_empty cur fq = Return True fq \<and>
     ForkQueue_full cur fq = Return False fq \<and>
     ForkQueue_close cur fq = Return () fq \<and>
     sync (state_of (ForkQueue_empty cur fq)) = None \<and>
     sync (state_of (ForkQueue_full cur fq)) = None \<and>
     sync (state_of (ForkQueue_close cur fq)) = None"
  by (simp add: ForkQueue_empty_def ForkQueue_full_def ForkQueue_close_def)

theorem ForkQueue_fresh_empty_full_close_witness:
  "sync (ForkQueue_init :: nat fork_queue) = None \<and>
   ForkQueue_empty 7 (ForkQueue_init :: nat fork_queue) = Return True ForkQueue_init \<and>
   ForkQueue_full 7 (ForkQueue_init :: nat fork_queue) = Return False ForkQueue_init \<and>
   ForkQueue_close 7 (ForkQueue_init :: nat fork_queue) = Return () ForkQueue_init"
proof -
  have h: "sync (ForkQueue_init :: nat fork_queue) = None"
    by (simp add: ForkQueue_init_def ForkSafeThreadSyncObject_init_def)
  from ForkQueue_fresh_empty_full_close [OF h, of 7] h show ?thesis by simp
qed

section \<open>Properties of \<^verbatim>\<open>SafeQueue\<close>\<close>




text \<open>
  C2. \<^verbatim>\<open>put\<close> never raises. When \<^verbatim>\<open>pickle.dumps\<close> raises, or when the write is to be
  dispatched to the pool (not the at-exit state) and the dispatch raises, \<^verbatim>\<open>put\<close> leaves the
  whole state, hence the ledger and the pending count of the calling process, as before
  the call.
\<close>

theorem put_never_raises_and_rolls_back:
  "\<not> raises (put env obj s) \<and>
   ((\<exists>e. dumps env obj = Inl e) \<or>
    (\<not> at_exit env \<and>
       (\<not> pool_ok env \<or> (thread_pool s = None \<and> thread_pool_pid s = Some (getpid env)))) \<longrightarrow>
      put env obj s = Return () s \<and>
      q_size (state_of (put env obj s)) = q_size s \<and>
      get_q_size_len env None (state_of (put env obj s)) = get_q_size_len env None s)"
proof -
  have a: "\<not> raises (put env obj s)"
    by (simp add: put_def Let_def split: outcome.splits)
  have b: "put env obj s = Return () s" if "\<exists>e. dumps env obj = Inl e"
    using that by (auto simp: put_def put_try_def Let_def pop_loop_snoc)
  have c: "put env obj s = Return () s" if "\<not> at_exit env" "\<not> pool_ok env"
    using that by (cases "dumps env obj") (simp_all add: put_def put_try_def Let_def pop_loop_snoc)
  have d: "put env obj s = Return () s"
    if "\<not> at_exit env" "thread_pool s = None" "thread_pool_pid s = Some (getpid env)"
    using that
    by (cases "dumps env obj")
       (simp_all add: put_def put_try_def Let_def pop_loop_snoc apply_async_def
          SingletonThreadPool_get_def)
  from a b c d show ?thesis by auto
qed

theorem put_never_raises_and_rolls_back_witness:
  "(\<exists>e. dumps (example_env\<lparr>dumps := \<lambda>x. Inl PickleError\<rparr>) [1] = Inl e) \<and>
   put (example_env\<lparr>dumps := \<lambda>x. Inl PickleError\<rparr>) [1] (SafeQueue_init\<lparr>q_size := [5, 5]\<rparr>) =
     Return () (SafeQueue_init\<lparr>q_size := [5, 5]\<rparr>) \<and>
   get_q_size_len (example_env\<lparr>dumps := \<lambda>x. Inl PickleError\<rparr>) None
     (state_of (put (example_env\<lparr>dumps := \<lambda>x. Inl PickleError\<rparr>) [1]
        (SafeQueue_init\<lparr>q_size := [5, 5]\<rparr>))) = 2"
proof -
  let ?env = "example_env\<lparr>dumps := \<lambda>x. Inl PickleError\<rparr>"
  have h: "\<exists>e. dumps ?env [1] = Inl e" by simp
  have n: "get_q_size_len ?env None (SafeQueue_init\<lparr>q_size := [5, 5]\<rparr>) = 2"
    by (simp add: get_q_size_len_def example_env_def)
  from put_never_raises_and_rolls_back [of ?env "[1]" "SafeQueue_init\<lparr>q_size := [5, 5]\<rparr>"] h n
  show ?thesis by simp
qed

text \<open>
  C3 (as the code has it). A \<^verbatim>\<open>put\<close> whose write is dispatched to the pool leaves the
  ledger extended by the pid of the calling process; a \<^verbatim>\<open>put\<close> in the at-exit state whose
  write succeeds leaves the ledger as it was (entry appended, then popped). After a
  successful write, \<^verbatim>\<open>_q_put\<close> pops entries from the end of the ledger up to and including
  the last entry of the current pid: the count of the current pid drops by one (staying
  0 when it was 0), and when the last entry is the current pid's, that entry alone is
  removed. After a failed write the whole ledger is empty. Every count is at least 0.
\<close>

theorem ledger_append_pop_clear:
  "(dumps env x = Inr b \<and> \<not> at_exit env \<and> pool_ok env \<and>
    (thread_pool_pid s = Some (getpid env) \<longrightarrow> thread_pool s \<noteq> None) \<longrightarrow>
      q_size (state_of (put env x s)) = q_size s @ [getpid env]) \<and>
   (dumps env x = Inr b \<and> at_exit env \<and> q_put_ok env b \<longrightarrow>
      q_size (state_of (put env x s)) = q_size s) \<and>
   (q_put_ok env b \<longrightarrow>
      q_size (state_of (q_put env b allow_raise s)) = pop_loop (getpid env) None (q_size s) \<and>
      get_q_size_len env None (state_of (q_put env b allow_raise s)) =
        get_q_size_len env None s - 1 \<and>
      (q_size s \<noteq> [] \<and> last (q_size s) = getpid env \<longrightarrow>
         q_size (state_of (q_put env b allow_raise s)) = butlast (q_size s))) \<and>
   (\<not> q_put_ok env b \<longrightarrow> q_size (state_of (q_put env b allow_raise s)) = []) \<and>
   0 \<le> int (get_q_size_len env (Some p) s)"
proof -
  have a: "q_size (state_of (put env x s)) = q_size s @ [getpid env]"
    if "dumps env x = Inr b" "\<not> at_exit env" "pool_ok env"
       "thread_pool_pid s = Some (getpid env) \<longrightarrow> thread_pool s \<noteq> None"
    using that
    by (auto simp add: put_def put_try_def Let_def apply_async_def SingletonThreadPool_get_def
          split: option.splits)
  have a': "q_size (state_of (put env x s)) = q_size s"
    if "dumps env x = Inr b" "at_exit env" "q_put_ok env b"
    using that by (simp add: put_def put_try_def q_put_def Let_def pop_loop_snoc)
  have b: "q_size (state_of (q_put env b allow_raise s)) = pop_loop (getpid env) None (q_size s)"
    if "q_put_ok env b"
    using that by (simp add: q_put_def Let_def)
  have c: "get_q_size_len env None (state_of (q_put env b allow_raise s)) =
             get_q_size_len env None s - 1"
    if "q_put_ok env b"
    using that by (simp add: q_put_def Let_def get_q_size_len_def count_pop_loop)
  have d: "q_size (state_of (q_put env b allow_raise s)) = butlast (q_size s)"
    if "q_put_ok env b" "q_size s \<noteq> []" "last (q_size s) = getpid env"
    using that by (simp add: q_put_def Let_def pop_loop_last_own)
  have e: "q_size (state_of (q_put env b allow_raise s)) = []" if "\<not> q_put_ok env b"
    using that by (simp add: q_put_def Let_def)
  from a a' b c d e show ?thesis by simp
qed

theorem ledger_append_pop_clear_witness:
  "dumps example_env [1] = Inr [128, 1] \<and> \<not> at_exit example_env \<and> pool_ok example_env \<and>
   q_put_ok example_env [128, 1] \<and>
   q_size (state_of (put example_env [1] (SafeQueue_init\<lparr>q_size := [7, 5]\<rparr>))) = [7, 5, 5] \<and>
   q_size (state_of (q_put example_env [128, 1] False (SafeQueue_init\<lparr>q_size := [7, 5]\<rparr>))) = [7] \<and>
   get_q_size_len example_env None
     (state_of (q_put example_env [128, 1] False (SafeQueue_init\<lparr>q_size := [7, 5]\<rparr>))) = 0"
proof -
  let ?s = "SafeQueue_init\<lparr>q_size := [7, 5]\<rparr>"
  have h: "dumps example_env [1] = Inr [128, 1]" "\<not> at_exit example_env" "pool_ok example_env"
    "q_put_ok example_env [128, 1]" "getpid example_env = 5"
    by (simp_all add: example_env_def tag_dumps_def)
  have t: "thread_pool_pid ?s = Some (getpid example_env) \<longrightarrow> thread_pool ?s \<noteq> None"
    by (simp add: SafeQueue_init_def)
  have n: "get_q_size_len example_env None ?s = 1"
    by (simp add: get_q_size_len_def example_env_def)
  have p: "pop_loop 5 None [7, 5] = [7]"
    using pop_loop_last_own [of "[7, 5]" 5] by simp
  from ledger_append_pop_clear [of example_env "[1]" "[128, 1]" ?s False 5] h t n p
  show ?thesis by simp
qed

text \<open>
  C3 as stated fails on the failure path: with three entries of the current pid 5 after
  an entry of pid 7, a failed write does not pop exactly one entry of pid 5 (the count
  goes from 3 to 0), and the entry of pid 7 is removed as well.
\<close>

theorem ledger_failed_write_counterexample:
  "get_q_size_len (example_env\<lparr>q_put_ok := \<lambda>b. False\<rparr>) None (SafeQueue_init\<lparr>q_size := [7, 5, 5, 5]\<rparr>) = 3 \<and>
   get_q_size_len (example_env\<lparr>q_put_ok := \<lambda>b. False\<rparr>) None
     (state_of (q_put (example_env\<lparr>q_put_ok := \<lambda>b. False\<rparr>) [128, 1] False
        (SafeQueue_init\<lparr>q_size := [7, 5, 5, 5]\<rparr>))) = 0 \<and>
   get_q_size_len (example_env\<lparr>q_put_ok := \<lambda>b. False\<rparr>) (Some 7) (SafeQueue_init\<lparr>q_size := [7, 5, 5, 5]\<rparr>) = 1 \<and>
   get_q_size_len (example_env\<lparr>q_put_ok := \<lambda>b. False\<rparr>) (Some 7)
     (state_of (q_put (example_env\<lparr>q_put_ok := \<lambda>b. False\<rparr>) [128, 1] False
        (SafeQueue_init\<lparr>q_size := [7, 5, 5, 5]\<rparr>))) = 0"
  by (simp add: get_q_size_len_def q_put_def example_env_def Let_def)

text \<open>
  C4. When the put on the interprocess queue raises inside \<^verbatim>\<open>_q_put\<close>, the ledger is
  emptied, so the pending count of the calling process (of every process) is 0; the
  exception leaves \<^verbatim>\<open>_q_put\<close> exactly when \<^verbatim>\<open>allow_raise\<close> is true. The synchronous path of
  \<^verbatim>\<open>put\<close> (at-exit state) calls \<^verbatim>\<open>_q_put\<close> with \<^verbatim>\<open>allow_raise\<close> true, so there the exception
  reaches the handler of \<^verbatim>\<open>put\<close>; a request run by the pool has \<^verbatim>\<open>allow_raise\<close> false and
  returns normally.
\<close>

theorem q_put_failure_clears_ledger:
  "\<not> q_put_ok env obj \<Longrightarrow>
     q_size (state_of (q_put env obj allow_raise s)) = [] \<and>
     get_q_size_len env pid (state_of (q_put env obj allow_raise s)) = 0 \<and>
     (raises (q_put env obj allow_raise s) \<longleftrightarrow> allow_raise) \<and>
     q_put env obj True s = Raise WriteError (s\<lparr>q_size := []\<rparr>) \<and>
     q_put env obj False s = Return () (s\<lparr>q_size := []\<rparr>) \<and>
     (at_exit env \<and> dumps env x = Inr obj \<longrightarrow>
        put_try env x s = Raise WriteError (s\<lparr>q_size := []\<rparr>))"
  by (simp add: q_put_def put_try_def get_q_size_len_def Let_def)

theorem q_put_failure_clears_ledger_witness:
  "\<not> q_put_ok (example_env\<lparr>q_put_ok := \<lambda>b. False\<rparr>) [128, 1] \<and>
   q_size (state_of (q_put (example_env\<lparr>q_put_ok := \<lambda>b. False\<rparr>) [128, 1] True
     (SafeQueue_init\<lparr>q_size := [5, 5]\<rparr>))) = [] \<and>
   raises (q_put (example_env\<lparr>q_put_ok := \<lambda>b. False\<rparr>) [128, 1] True
     (SafeQueue_init\<lparr>q_size := [5, 5]\<rparr>)) \<and>
   \<not> raises (q_put (example_env\<lparr>q_put_ok := \<lambda>b. False\<rparr>) [128, 1] False
     (SafeQueue_init\<lparr>q_size := [5, 5]\<rparr>))"
proof -
  let ?env = "example_env\<lparr>q_put_ok := \<lambda>b. False\<rparr>"
  have h: "\<not> q_put_ok ?env [128, 1]" by simp
  from q_put_failure_clears_ledger [OF h, of True "SafeQueue_init\<lparr>q_size := [5, 5]\<rparr>"]
       q_put_failure_clears_ledger [OF h, of False "SafeQueue_init\<lparr>q_size := [5, 5]\<rparr>"] h
  show ?thesis by simp
qed

text \<open>
  C7 (as the code has it). For a payload of fewer than \<open>2^31\<close> bytes the overridden write
  primitive makes one call of the underlying send, with a four-byte header that reads,
  most significant byte first, as the payload length, followed by the payload; for a
  longer payload packing the header raises and nothing is sent.
\<close>

theorem send_bytes_single_frame:
  "(length buf < 2 ^ 31 \<longrightarrow>
      (\<exists>header. length header = 4 \<and> be_value header = length buf \<and>
         pipe_override_send_bytes conn buf =
           Return () (conn\<lparr>sent := sent conn @ [header @ buf]\<rparr>))) \<and>
   (2 ^ 31 \<le> length buf \<longrightarrow> pipe_override_send_bytes conn buf = Raise StructError conn)"
proof -
  have a: "\<exists>header. length header = 4 \<and> be_value header = length buf \<and>
         pipe_override_send_bytes conn buf =
           Return () (conn\<lparr>sent := sent conn @ [header @ buf]\<rparr>)"
    if "length buf < 2 ^ 31"
    using struct_pack_i_small [OF that]
    by (auto simp: pipe_override_send_bytes_def send_def Let_def)
  have b: "pipe_override_send_bytes conn buf = Raise StructError conn" if "2 ^ 31 \<le> length buf"
    using that by (rule send_bytes_too_long)
  from a b show ?thesis by blast
qed

theorem send_bytes_single_frame_witness:
  "length [1, 2, 3 :: byte] < 2 ^ 31 \<and>
   (\<exists>header. length header = 4 \<and> be_value header = 3 \<and>
      pipe_override_send_bytes \<lparr>sent = []\<rparr> [1, 2, 3] =
        Return () \<lparr>sent = [header @ [1, 2, 3]]\<rparr>) \<and>
   pipe_override_send_bytes \<lparr>sent = []\<rparr> [1, 2, 3] = Return () \<lparr>sent = [[0, 0, 0, 3, 1, 2, 3]]\<rparr>"
proof -
  have h: "length [1, 2, 3 :: byte] < 2 ^ 31" by simp
  have e: "pipe_override_send_bytes \<lparr>sent = []\<rparr> [1, 2, 3] =
      Return () \<lparr>sent = [[0, 0, 0, 3, 1, 2, 3]]\<rparr>"
    by (simp add: pipe_override_send_bytes_def send_def struct_pack_i_def Let_def)
  from send_bytes_single_frame [of "[1, 2, 3]" "\<lparr>sent = []\<rparr>"] h e
  show ?thesis by simp
qed

text \<open>
  C7 as stated fails for a payload of \<open>2^31\<close> bytes: the header cannot be packed, the call
  raises \<^verbatim>\<open>struct.error\<close> and no frame is sent.
\<close>

theorem send_bytes_large_counterexample:
  "pipe_override_send_bytes \<lparr>sent = []\<rparr> (replicate (2 ^ 31) 0) = Raise StructError \<lparr>sent = []\<rparr>"
proof -
  have "2 ^ 31 \<le> length (replicate (2 ^ 31) (0 :: byte))"
    by (simp only: length_replicate order_refl)
  then show ?thesis by (rule send_bytes_too_long)
qed

section \<open>Properties of \<^verbatim>\<open>SafeEvent\<close> and \<^verbatim>\<open>BackgroundMonitor\<close>\<close>

text \<open>
  C5. \<^verbatim>\<open>SafeEvent.set()\<close> sets the underlying event exactly when
  \<^verbatim>\<open>is_subprocess_enabled()\<close> is false or \<^verbatim>\<open>is_subprocess_alive()\<close> returns \<^verbatim>\<open>True\<close>; in every
  other case (the query returns \<^verbatim>\<open>False\<close> or \<^verbatim>\<open>None\<close>, or raises) the event is left as it
  was. The call raises only by an exception of the liveness query.
\<close>

theorem SafeEvent_set_guard:
  "state_of (SafeEvent_set ps c ev) =
     (if \<not> is_subprocess_enabled c None \<or> is_subprocess_alive ps c None = Inr (Some True)
      then ev\<lparr>process_event := True\<rparr> else ev) \<and>
   (raises (SafeEvent_set ps c ev) \<longleftrightarrow>
      is_subprocess_enabled c None \<and> (\<exists>e. is_subprocess_alive ps c None = Inl e))"
  by (auto simp: SafeEvent_set_def split: sum.splits)

theorem SafeEvent_set_guard_witness:
  "is_subprocess_enabled forked_class None \<and>
   is_subprocess_alive psutil_alive forked_class None = Inr (Some True) \<and>
   is_subprocess_alive psutil_dead forked_class None = Inr (Some False) \<and>
   state_of (SafeEvent_set psutil_alive forked_class SafeEvent_init) = \<lparr>process_event = True\<rparr> \<and>
   state_of (SafeEvent_set psutil_dead forked_class SafeEvent_init) = \<lparr>process_event = False\<rparr> \<and>
   state_of (SafeEvent_set psutil_dead (forked_class\<lparr>main_process := None\<rparr>) SafeEvent_init) =
     \<lparr>process_event = True\<rparr>"
proof -
  have e: "is_subprocess_enabled forked_class None"
    "\<not> is_subprocess_enabled (forked_class\<lparr>main_process := None\<rparr>) None"
    by (simp_all add: is_subprocess_enabled_def forked_class_def truthy_pid_def)
  have a: "is_subprocess_alive psutil_alive forked_class None = Inr (Some True)"
    by (simp add: is_subprocess_alive_def direct_lookup_def running_and_not_zombie_def
          forked_class_def psutil_alive_def truthy_pid_def)
  have d: "is_subprocess_alive psutil_dead forked_class None = Inr (Some False)"
    by (simp add: is_subprocess_alive_def direct_lookup_def running_and_not_zombie_def
          forked_class_def psutil_dead_def truthy_pid_def)
  from SafeEvent_set_guard [of psutil_alive forked_class SafeEvent_init]
       SafeEvent_set_guard [of psutil_dead forked_class SafeEvent_init]
       SafeEvent_set_guard [of psutil_dead "forked_class\<lparr>main_process := None\<rparr>" SafeEvent_init]
       e a d
  show ?thesis by (simp add: SafeEvent_init_def)
qed




text \<open>
  C8. \<^verbatim>\<open>is_subprocess_alive\<close> returns \<^verbatim>\<open>None\<close> exactly when a truthy subprocess pid is
  recorded (and the task, when given, is the recorded one), the direct lookup raises, and
  the lookup of the recorded parent pid raises a \<^verbatim>\<open>psutil\<close> error; every other return is
  a boolean. Such a state exists: the class attributes as the fork leaves them in the
  parent, with neither process found.
\<close>

theorem is_subprocess_alive_returns_None:
  "is_subprocess_alive ps c t = Inr None \<longleftrightarrow>
     truthy_pid (main_process c) \<and>
     (case t of None \<Rightarrow> True | Some tk \<Rightarrow> main_process_task_id c = Some (id_of tk)) \<and>
     (\<exists>e. direct_lookup ps c = Inl e) \<and>
     Process ps (parent_pid c) = Inl PsutilError"
proof -
  have a: "fallback_lookup ps c = Inr None \<longleftrightarrow>
      truthy_pid (main_process c) \<and> Process ps (parent_pid c) = Inl PsutilError"
    by (auto simp: fallback_lookup_def Let_def split: sum.splits option.splits)
  have b: "is_subprocess_alive ps c t = Inr None \<longleftrightarrow>
      truthy_pid (main_process c) \<and>
      (case t of None \<Rightarrow> True | Some tk \<Rightarrow> main_process_task_id c = Some (id_of tk)) \<and>
      (\<exists>e. direct_lookup ps c = Inl e) \<and> fallback_lookup ps c = Inr None"
    by (cases t; cases "direct_lookup ps c") (auto simp: is_subprocess_alive_def)
  from a b show ?thesis by auto
qed

theorem is_subprocess_alive_returns_None_witness:
  "truthy_pid (main_process forked_class) \<and>
   direct_lookup psutil_gone forked_class = Inl PsutilError \<and>
   Process psutil_gone (parent_pid forked_class) = Inl PsutilError \<and>
   is_subprocess_alive psutil_gone forked_class None = Inr None"
proof -
  have h: "truthy_pid (main_process forked_class)"
    "direct_lookup psutil_gone forked_class = Inl PsutilError"
    "Process psutil_gone (parent_pid forked_class) = Inl PsutilError"
    by (simp_all add: truthy_pid_def forked_class_def direct_lookup_def psutil_gone_def)
  with is_subprocess_alive_returns_None [of psutil_gone forked_class None]
  show ?thesis by simp
qed

text \<open>
  C10. For a monitor that is not in thread mode (\<^verbatim>\<open>_subprocess\<close> is not \<^verbatim>\<open>False\<close>) and that
  stands at most once in the list of its task, any number of \<^verbatim>\<open>start()\<close> calls leaves it at
  most once in that list, and exactly once after the first call.
\<close>

theorem start_registers_once:
  assumes "subprocess m \<noteq> Some False"
    and "count_list (registry (cls w) (task_obj_id m)) (oid m) \<le> 1"
  shows "count_list (registry (cls (fst (start_n cur n (w, m)))) (task_obj_id m)) (oid m) \<le> 1 \<and>
         (0 < n \<longrightarrow>
            count_list (registry (cls (fst (start_n cur n (w, m)))) (task_obj_id m)) (oid m) = 1)"
  using start_n_count [OF assms, of cur n] assms(2) by simp

theorem start_registers_once_witness:
  "subprocess pending_monitor \<noteq> Some False \<and>
   count_list (registry (cls forked_world) (task_obj_id pending_monitor)) (oid pending_monitor) \<le> 1 \<and>
   count_list (registry (cls (fst (start_n 10 3 (forked_world, pending_monitor)))) 77) 1 = 1"
proof -
  have h1: "subprocess pending_monitor \<noteq> Some False" by (simp add: pending_monitor_def)
  have h2: "count_list (registry (cls forked_world) (task_obj_id pending_monitor))
              (oid pending_monitor) \<le> 1"
    by (simp add: pending_monitor_def forked_world_def forked_class_def registry_def)
  have t: "task_obj_id pending_monitor = 77" "oid pending_monitor = 1"
    by (simp_all add: pending_monitor_def)
  from start_registers_once [OF h1 h2, of 10 3] h1 h2 t show ?thesis by simp
qed

end
